theory Spec2Isabelle
  imports Main "HOL-Library.Word" "HOL-Library.Sublist"
begin

section \<open>JavaScript strings\<close>

text \<open>
  A JavaScript string is a sequence of UTF-16 code units. String literals of the source
  are written \<open>js ''...''\<close>: the code units of an ASCII literal.
\<close>

type_synonym jsstring = "16 word list"

definition js :: "string \<Rightarrow> jsstring" where
  "js s = map (\<lambda>c. word_of_nat (of_char c)) s"

text \<open>
  ECMAScript's LineTerminator code points (LF, CR, LS, PS) and WhiteSpace code points
  (TAB, VT, FF, SP, NBSP, ZWNBSP and the space separators of Unicode).
  \<open>String.prototype.trim\<close> strips both kinds from both ends.
\<close>

definition is_line_terminator :: "16 word \<Rightarrow> bool" where
  "is_line_terminator c = (c = 0x000A \<or> c = 0x000D \<or> c = 0x2028 \<or> c = 0x2029)"

definition is_white_space :: "16 word \<Rightarrow> bool" where
  "is_white_space c =
     (c = 0x0009 \<or> c = 0x000B \<or> c = 0x000C \<or> c = 0x0020 \<or> c = 0x00A0 \<or> c = 0xFEFF \<or>
      c = 0x1680 \<or> (0x2000 \<le> c \<and> c \<le> 0x200A) \<or> c = 0x202F \<or> c = 0x205F \<or> c = 0x3000)"

definition trimmable :: "16 word \<Rightarrow> bool" where
  "trimmable c = (is_white_space c \<or> is_line_terminator c)"

definition trim :: "jsstring \<Rightarrow> jsstring" where
  "trim s = rev (dropWhile trimmable (rev (dropWhile trimmable s)))"

section \<open>Search results (components/SearchResults.tsx)\<close>

text \<open>
  A result item as the component reads it: every field is optional (\<open>None\<close> is an absent
  or null field). The field \<open>image\<close> of the source is \<open>image_field\<close> here.
\<close>

record result_item =
  image_field :: "jsstring option"
  thumbnails :: "jsstring list option"
  title :: "jsstring option"
  date :: "jsstring option"
  publish_time :: "jsstring option"
  body :: "jsstring option"
  href :: "jsstring option"
  url :: "jsstring option"
  link :: "jsstring option"

text \<open>
  The \<open>results\<close> object: its own properties in the order \<open>Object.keys\<close> lists them. A
  category's value is null (\<open>None\<close>) or an array whose entries are items or null.
\<close>

type_synonym search_result_set = "(jsstring \<times> result_item option list option) list"

text \<open>
  What the component renders. A card lists the \<open>src\<close> of each \<open>img\<close> element it
  holds, in document order; \<open>card_date\<close> is the argument handed to \<open>formatDate\<close> when
  the date paragraph is rendered (\<open>formatDate\<close> itself reads the local time zone and is
  left out).
\<close>

record card =
  card_images :: "jsstring list"
  card_title :: "jsstring option"
  card_date :: "jsstring option"
  card_body :: "jsstring option"
  card_href :: "jsstring option"
  card_action :: jsstring

record category_view =
  heading :: jsstring
  cards :: "card list"

text \<open>Truthiness of an optional string: present and not empty.\<close>

definition present :: "jsstring option \<Rightarrow> bool" where
  "present v = (case v of None \<Rightarrow> False | Some s \<Rightarrow> s \<noteq> [])"

text \<open>The operator \<open>a || b\<close> on optional strings.\<close>

definition or_else :: "jsstring option \<Rightarrow> jsstring option \<Rightarrow> jsstring option" where
  "or_else a b = (if present a then a else b)"

text \<open>\<open>results[category]\<close>: a missing property and a null value are both falsy.\<close>

definition category_items :: "search_result_set \<Rightarrow> jsstring \<Rightarrow> result_item option list option" where
  "category_items results category =
     (case map_of results category of None \<Rightarrow> None | Some v \<Rightarrow> v)"

text \<open>The filter \<open>results[category] && results[category].length > 0\<close> (line 16).\<close>

definition nonempty_category :: "search_result_set \<Rightarrow> jsstring \<Rightarrow> bool" where
  "nonempty_category results category =
     (case category_items results category of None \<Rightarrow> False | Some items \<Rightarrow> 0 < length items)"

text \<open>\<open>.filter(Boolean)\<close> on an array of items and nulls (line 22).\<close>

fun filter_Boolean :: "'a option list \<Rightarrow> 'a list" where
  "filter_Boolean [] = []"
| "filter_Boolean (None # xs) = filter_Boolean xs"
| "filter_Boolean (Some x # xs) = x # filter_Boolean xs"

text \<open>
  One card (lines 24--61). The two \<open>img\<close> elements are two separate conditional
  blocks: \<open>item?.image && ...\<close> and \<open>item?.thumbnails?.length > 0 && ...\<close>.
\<close>

definition render_item :: "jsstring \<Rightarrow> result_item \<Rightarrow> card" where
  "render_item category item =
     \<lparr>card_images =
        (case image_field item of None \<Rightarrow> [] | Some i \<Rightarrow> if i \<noteq> [] then [i] else []) @
        (case thumbnails item of None \<Rightarrow> [] | Some [] \<Rightarrow> [] | Some (t # ts) \<Rightarrow> [t]),
      card_title = title item,
      card_date =
        (if present (or_else (date item) (publish_time item))
         then or_else (date item) (publish_time item) else None),
      card_body = body item,
      card_href = or_else (or_else (href item) (url item)) (link item),
      card_action = (if category = js ''videos'' then js ''View'' else js ''Read more'')\<rparr>"

definition SearchResults :: "search_result_set \<Rightarrow> category_view list" where
  "SearchResults results =
     map (\<lambda>category.
            \<lparr>heading = category,
             cards = map (render_item category)
                       (filter_Boolean (case category_items results category of
                                          None \<Rightarrow> [] | Some items \<Rightarrow> items))\<rparr>)
         (filter (nonempty_category results) (map fst results))"

text \<open>
  The image of an item as the specification words it: \<open>image\<close> if present, else the first
  of \<open>thumbnails\<close> if that is not empty, else none.
\<close>

definition spec_display_image :: "result_item \<Rightarrow> jsstring option" where
  "spec_display_image item =
     (if present (image_field item) then image_field item
      else (case thumbnails item of None \<Rightarrow> None | Some [] \<Rightarrow> None | Some (t # ts) \<Rightarrow> Some t))"

section \<open>Transcript entries and the chat component's state\<close>

text \<open>
  One object of the \<open>messages\<close> array: an inbound event as parsed from a frame, or the
  entry \<open>{ ...messageData, user: "You" }\<close> of a submission. \<open>None\<close> is an absent field; the
  field \<open>id\<close> of the source is \<open>msg_id\<close> here.
\<close>

record msg =
  chain_of_thought :: "bool option"
  chain_of_thought_message :: "jsstring option"
  message :: "jsstring option"
  search_results :: "search_result_set option"
  user :: "jsstring option"
  msg_id :: "int option"
  user_id :: "jsstring option"
  session_id :: "jsstring option"
  user_message :: "jsstring option"
  search :: "bool option"

definition truthy :: "bool option \<Rightarrow> bool" where
  "truthy b = (b = Some True)"

definition You :: jsstring where
  "You = js ''You''"

text \<open>The test \<open>msg?.user === "You"\<close>.\<close>

definition from_user :: "msg \<Rightarrow> bool" where
  "from_user m = (user m = Some You)"

text \<open>The test \<open>msg?.chain_of_thought\<close>.\<close>

definition reasoning :: "msg \<Rightarrow> bool" where
  "reasoning m = truthy (chain_of_thought m)"

text \<open>
  The updater that \<open>websocket.onmessage\<close> passes to \<open>setMessages\<close>, for the parsed event
  \<open>data\<close> (part_000, lines 24--44).
\<close>

definition setMessages_onmessage :: "msg \<Rightarrow> msg list \<Rightarrow> msg list" where
  "setMessages_onmessage data prev =
     (if reasoning data
      then filter (\<lambda>m. reasoning m \<or> from_user m) prev @ [data]
      else if 0 < length prev \<and> \<not> reasoning (last prev) \<and> \<not> from_user (last prev)
           then butlast prev @ [data]
           else prev @ [data])"

text \<open>
  The readiness of a WebSocket, and what \<open>send\<close> does in each state (WHATWG WebSockets):
  it throws InvalidStateError while connecting, transmits when open, and discards the
  data without throwing when closing or closed.
\<close>

datatype readyState = CONNECTING | OPEN | CLOSING | CLOSED

datatype error = SyntaxError | InvalidStateError

text \<open>
  The state of \<open>Chat\<close>: its \<open>useState\<close> cells, the frames transmitted on the socket
  (\<open>sent\<close>, each the object given to \<open>JSON.stringify\<close>) and the console's lines.
  \<open>ws = None\<close> is the initial \<open>null\<close>; \<open>Some r\<close> is the socket, in ready state \<open>r\<close>.
\<close>

record chat =
  messages :: "msg list"
  input :: jsstring
  loading :: bool
  ws :: "readyState option"
  searchEnabled :: bool
  sent :: "msg list"
  console :: "jsstring list"

definition websocket_onopen :: "chat \<Rightarrow> chat" where
  "websocket_onopen st = st\<lparr>console := console st @ [js ''Connected to WebSocket'']\<rparr>"

text \<open>
  \<open>websocket.onmessage\<close>: \<open>parsed\<close> is the result of \<open>JSON.parse(event.data)\<close>, \<open>None\<close> when
  it throws; the handler then ends before \<open>setMessages\<close>.
\<close>

definition websocket_onmessage :: "msg option \<Rightarrow> chat \<Rightarrow> error + chat" where
  "websocket_onmessage parsed st =
     (case parsed of
        None \<Rightarrow> Inl SyntaxError
      | Some data \<Rightarrow> Inr (st\<lparr>messages := setMessages_onmessage data (messages st)\<rparr>))"

definition websocket_onclose :: "chat \<Rightarrow> chat" where
  "websocket_onclose st = st\<lparr>console := console st @ [js ''WebSocket disconnected'']\<rparr>"

text \<open>The object \<open>messageData\<close> of \<open>sendMessage\<close>; \<open>now\<close> is the value of \<open>Date.now()\<close>.\<close>

definition messageData :: "int \<Rightarrow> chat \<Rightarrow> msg" where
  "messageData now st =
     \<lparr>chain_of_thought = None, chain_of_thought_message = None, message = None,
      search_results = None, user = None,
      msg_id = Some now, user_id = Some (js ''user123''), session_id = Some (js ''session123''),
      user_message = Some (input st), search = Some (searchEnabled st)\<rparr>"

text \<open>
  \<open>sendMessage\<close> (part_000, lines 72--86). The guard is \<open>ws && input.trim()\<close>: a socket
  object is truthy in every ready state, a string is truthy when it is not empty.
\<close>

definition sendMessage :: "int \<Rightarrow> chat \<Rightarrow> error + chat" where
  "sendMessage now st =
     (case ws st of
        None \<Rightarrow> Inr st
      | Some r \<Rightarrow>
          if trim (input st) = [] then Inr st
          else if r = CONNECTING then Inl InvalidStateError
          else Inr (st\<lparr>sent := (if r = OPEN then sent st @ [messageData now st] else sent st),
                        messages := messages st @ [(messageData now st)\<lparr>user := Some You\<rparr>],
                        input := [],
                        loading := True\<rparr>))"

text \<open>
  An inbound event \<open>{ chain_of_thought: cot, message: text }\<close> with no other field, used
  to write concrete transcripts.
\<close>

definition event :: "bool option \<Rightarrow> jsstring \<Rightarrow> msg" where
  "event cot text =
     \<lparr>chain_of_thought = cot, chain_of_thought_message = None, message = Some text,
      search_results = None, user = None, msg_id = None, user_id = None, session_id = None,
      user_message = None, search = None\<rparr>"

text \<open>
  The other writers of the state: the effect that creates the socket and stores it with
  \<open>setWs\<close> (lines 19--48; a new socket is connecting), the \<open>onChange\<close> of the text area
  (line 141) and the \<open>onValueChange\<close> of the switch (line 147).
\<close>

definition useEffect_mount :: "chat \<Rightarrow> chat" where
  "useEffect_mount st = st\<lparr>ws := Some CONNECTING\<rparr>"

definition Textarea_onChange :: "jsstring \<Rightarrow> chat \<Rightarrow> chat" where
  "Textarea_onChange v st = st\<lparr>input := v\<rparr>"

definition Switch_onValueChange :: "bool \<Rightarrow> chat \<Rightarrow> chat" where
  "Switch_onValueChange b st = st\<lparr>searchEnabled := b\<rparr>"

text \<open>
  A run of submissions: for each pair \<open>(now, t)\<close> the user types \<open>t\<close> into the text area
  and presses Send while \<open>Date.now()\<close> reads \<open>now\<close>. A \<open>send\<close> that throws ends the run.
\<close>

fun type_and_send :: "(int \<times> jsstring) list \<Rightarrow> chat \<Rightarrow> error + chat" where
  "type_and_send [] st = Inr st"
| "type_and_send ((now, t) # rest) st =
     (case sendMessage now (Textarea_onChange t st) of
        Inl e \<Rightarrow> Inl e
      | Inr st' \<Rightarrow> type_and_send rest st')"

text \<open>The initial state: the arguments of the \<open>useState\<close> calls (lines 11--16).\<close>

definition chat0 :: chat where
  "chat0 = \<lparr>messages = [], input = [], loading = False, ws = None, searchEnabled = False,
            sent = [], console = []\<rparr>"

section \<open>The markup renderer (formatMessage)\<close>

definition stars :: jsstring where
  "stars = js ''**''"

text \<open>
  \<open>text.split("\n")\<close>: \<open>cur\<close> holds the code units of the line being read.
\<close>

fun split_lines :: "jsstring \<Rightarrow> jsstring \<Rightarrow> jsstring list" where
  "split_lines cur [] = [cur]"
| "split_lines cur (c # cs) =
     (if c = 0x000A then cur # split_lines [] cs else split_lines (cur @ [c]) cs)"

text \<open>
  The pattern \<open>\*\*.*?\*\*\<close> tried at the start of a string. After the opening pair,
  the lazy \<open>.*?\<close> takes the fewest code units, none of them a line terminator, that let
  the closing pair match: \<open>lazy_body\<close> returns them with what follows the closing pair.
\<close>

fun lazy_body :: "jsstring \<Rightarrow> (jsstring \<times> jsstring) option" where
  "lazy_body [] = None"
| "lazy_body (c # cs) =
     (if prefix stars (c # cs) then Some ([], drop 2 (c # cs))
      else if is_line_terminator c then None
      else map_option (\<lambda>(b, r). (c # b, r)) (lazy_body cs))"

definition match_at :: "jsstring \<Rightarrow> (jsstring \<times> jsstring) option" where
  "match_at s =
     (if prefix stars s
      then map_option (\<lambda>(b, r). (stars @ b @ stars, r)) (lazy_body (drop 2 s))
      else None)"

lemma lazy_body_length:
  "lazy_body s = Some (b, r) \<Longrightarrow> length s = length b + 2 + length r"
proof (induction s arbitrary: b)
  case Nil
  then show ?case by simp
next
  case (Cons c cs)
  show ?case
  proof (cases "prefix stars (c # cs)")
    case True
    then have "2 \<le> length (c # cs)"
      by (auto simp: stars_def js_def prefix_def)
    with True Cons.prems show ?thesis by auto
  next
    case False
    with Cons.prems obtain b' where "lazy_body cs = Some (b', r)" and "b = c # b'"
      by (auto split: if_splits)
    with Cons.IH [of b'] show ?thesis by simp
  qed
qed

lemma match_at_shorter:
  "match_at s = Some (m, r) \<Longrightarrow> length r < length s"
  by (auto simp: match_at_def split: if_splits dest!: lazy_body_length)

text \<open>
  \<open>line.split(/(\*\*.*?\*\*)/)\<close>: the scan of \<open>RegExp.prototype[Symbol.split]\<close>. At each
  position the pattern is tried; a match closes the chunk read so far (\<open>cur\<close>), adds the
  captured match as a chunk of its own and restarts after it; otherwise one code unit
  joins \<open>cur\<close>. The pattern never matches the empty string.
\<close>

function split_bold :: "jsstring \<Rightarrow> jsstring \<Rightarrow> jsstring list" where
  "split_bold cur s =
     (case match_at s of
        Some (m, r) \<Rightarrow> cur # m # split_bold [] r
      | None \<Rightarrow> (case s of [] \<Rightarrow> [cur] | c # cs \<Rightarrow> split_bold (cur @ [c]) cs))"
  by pat_completeness auto
termination
  by (relation "measure (\<lambda>(cur, s). length s)") (auto dest: match_at_shorter)

declare split_bold.simps [simp del]

datatype element = Plain jsstring | Strong jsstring | Br

text \<open>\<open>chunk.slice(2, -2)\<close>.\<close>

definition slice_2_minus_2 :: "jsstring \<Rightarrow> jsstring" where
  "slice_2_minus_2 chunk = drop 2 (take (length chunk - 2) chunk)"

definition format_chunk :: "jsstring \<Rightarrow> element" where
  "format_chunk chunk =
     (if prefix stars chunk \<and> suffix stars chunk then Strong (slice_2_minus_2 chunk)
      else Plain chunk)"

text \<open>One list per line: the children of its \<open>span\<close>, the chunks and then \<open>br\<close>.\<close>

definition formatMessage :: "jsstring \<Rightarrow> element list list" where
  "formatMessage text =
     map (\<lambda>line. map format_chunk (split_bold [] line) @ [Br]) (split_lines [] text)"

section \<open>Reasoning events\<close>

lemma fold_reasoning_events:
  "\<forall>e\<in>set evs. reasoning e \<Longrightarrow> evs \<noteq> [] \<Longrightarrow>
   fold setMessages_onmessage evs prev = filter (\<lambda>m. reasoning m \<or> from_user m) prev @ evs"
proof (induction evs arbitrary: prev)
  case Nil
  then show ?case by simp
next
  case (Cons e evs)
  have step: "setMessages_onmessage e prev = filter (\<lambda>m. reasoning m \<or> from_user m) prev @ [e]"
    using Cons.prems(1) by (simp add: setMessages_onmessage_def)
  show ?case
  proof (cases "evs = []")
    case True
    then show ?thesis by (simp add: step)
  next
    case False
    have "fold setMessages_onmessage (e # evs) prev =
          fold setMessages_onmessage evs (setMessages_onmessage e prev)"
      by simp
    also have "\<dots> = filter (\<lambda>m. reasoning m \<or> from_user m) (setMessages_onmessage e prev) @ evs"
      using Cons.IH [of "setMessages_onmessage e prev"] Cons.prems(1) False by simp
    also have "\<dots> = filter (\<lambda>m. reasoning m \<or> from_user m) prev @ e # evs"
      using Cons.prems(1) by (simp add: step)
    finally show ?thesis .
  qed
qed

text \<open>
  C1 (amended). A reasoning event (\<open>chain_of_thought\<close> truthy) removes the entries that
  are neither reasoning entries nor user entries and is appended; the reasoning entries
  already in the transcript are kept. So for every non-empty sequence of consecutive
  reasoning events folded into any starting transcript, the result is the starting
  transcript's reasoning and user entries, in order, followed by all the events received:
  its reasoning entries are the earlier ones and then every event, and its last entry is
  the last event.
\<close>

theorem reasoning_events_accumulate:
  assumes "list_all reasoning evs" and "evs \<noteq> []"
  shows "fold setMessages_onmessage evs prev =
           filter (\<lambda>m. reasoning m \<or> from_user m) prev @ evs \<and>
         filter reasoning (fold setMessages_onmessage evs prev) = filter reasoning prev @ evs \<and>
         last (fold setMessages_onmessage evs prev) = last evs"
proof -
  have all: "\<forall>e\<in>set evs. reasoning e"
    using assms(1) by (simp add: list_all_iff)
  have eq: "fold setMessages_onmessage evs prev =
              filter (\<lambda>m. reasoning m \<or> from_user m) prev @ evs"
    using all assms(2) by (rule fold_reasoning_events)
  have kept: "filter reasoning (filter (\<lambda>m. reasoning m \<or> from_user m) prev) =
                filter reasoning prev"
    by (induction prev) auto
  have evs: "filter reasoning evs = evs"
    using all by (simp add: filter_id_conv)
  show ?thesis
    using eq assms(2) kept evs by simp
qed

theorem reasoning_events_accumulate_witness:
  "list_all reasoning [event (Some True) (js ''a''), event (Some True) (js ''b'')] \<and>
   fold setMessages_onmessage [event (Some True) (js ''a''), event (Some True) (js ''b'')]
     [event None (js ''partial'')]
   = [event (Some True) (js ''a''), event (Some True) (js ''b'')]"
  using reasoning_events_accumulate
    [of "[event (Some True) (js ''a''), event (Some True) (js ''b'')]"
        "[event None (js ''partial'')]"]
  by (simp add: reasoning_def from_user_def truthy_def event_def)

text \<open>
  Two reasoning events received in a row on the empty transcript leave two reasoning
  entries, not only the last one.
\<close>

theorem reasoning_events_counterexample:
  "fold setMessages_onmessage [event (Some True) (js ''a''), event (Some True) (js ''b'')] []
     = [event (Some True) (js ''a''), event (Some True) (js ''b'')] \<and>
   filter reasoning
     (fold setMessages_onmessage [event (Some True) (js ''a''), event (Some True) (js ''b'')] [])
     \<noteq> [event (Some True) (js ''b'')]"
  by (simp add: setMessages_onmessage_def reasoning_def from_user_def truthy_def event_def)

section \<open>Final events\<close>

text \<open>
  C2 (amended). For every non-empty sequence of consecutively received final events
  (\<open>chain_of_thought\<close> false or absent), none of which carries \<open>user = "You"\<close>: when the
  last transcript entry exists and is a non-user, non-reasoning entry, every event
  replaces the last entry in place, and the result is the transcript without that entry
  followed by the last event only; when the transcript is empty or its last entry is a
  user or a reasoning entry, the first event is appended and the others replace it, and
  the result is the transcript followed by the last event only. No intermediate event
  stays as an entry.
\<close>

theorem final_events_coalesce:
  assumes "list_all (\<lambda>e. \<not> reasoning e \<and> \<not> from_user e) evs" and "evs \<noteq> []"
  shows "fold setMessages_onmessage evs prev =
     (if 0 < length prev \<and> \<not> reasoning (last prev) \<and> \<not> from_user (last prev)
      then butlast prev else prev) @ [last evs]"
  using assms
proof (induction evs arbitrary: prev)
  case Nil
  then show ?case by simp
next
  case (Cons e evs)
  let ?base = "if 0 < length prev \<and> \<not> reasoning (last prev) \<and> \<not> from_user (last prev)
      then butlast prev else prev"
  have e: "\<not> reasoning e" "\<not> from_user e"
    using Cons.prems(1) by simp_all
  have step: "setMessages_onmessage e prev = ?base @ [e]"
    using e by (simp add: setMessages_onmessage_def)
  show ?case
  proof (cases "evs = []")
    case True
    then show ?thesis using step by simp
  next
    case False
    have "fold setMessages_onmessage (e # evs) prev = fold setMessages_onmessage evs (?base @ [e])"
      using step by simp
    also have "\<dots> = ?base @ [last evs]"
      using Cons.IH [of "?base @ [e]"] Cons.prems(1) False e by simp
    finally show ?thesis using False by simp
  qed
qed

theorem final_events_coalesce_witness:
  "list_all (\<lambda>e. \<not> reasoning e \<and> \<not> from_user e) [event None (js ''a''), event (Some False) (js ''ab'')] \<and>
   fold setMessages_onmessage [event None (js ''a''), event (Some False) (js ''ab'')]
     [event (Some True) (js ''thinking''), event None (js ''x'')]
   = [event (Some True) (js ''thinking''), event (Some False) (js ''ab'')] \<and>
   fold setMessages_onmessage [event None (js ''a''), event (Some False) (js ''ab'')]
     [event (Some True) (js ''thinking'')]
   = [event (Some True) (js ''thinking''), event (Some False) (js ''ab'')]"
  using final_events_coalesce
    [of "[event None (js ''a''), event (Some False) (js ''ab'')]"
        "[event (Some True) (js ''thinking''), event None (js ''x'')]"]
   final_events_coalesce
    [of "[event None (js ''a''), event (Some False) (js ''ab'')]"
        "[event (Some True) (js ''thinking'')]"]
  by (simp add: reasoning_def from_user_def truthy_def event_def You_def js_def)

text \<open>
  A final event that carries \<open>user = "You"\<close> counts as a user entry once it is in the
  transcript: the final event received after it is appended, and both stay.
\<close>

theorem final_events_counterexample:
  "\<not> reasoning ((event None (js ''a''))\<lparr>user := Some You\<rparr>) \<and>
   \<not> reasoning (event None (js ''b'')) \<and>
   fold setMessages_onmessage [(event None (js ''a''))\<lparr>user := Some You\<rparr>, event None (js ''b'')]
     [event None (js ''x'')]
   = [(event None (js ''a''))\<lparr>user := Some You\<rparr>, event None (js ''b'')]"
  by (simp add: setMessages_onmessage_def reasoning_def from_user_def truthy_def event_def You_def js_def)

section \<open>User entries\<close>

lemma filter_from_user_step:
  "filter from_user (setMessages_onmessage e prev) = filter from_user prev @ filter from_user [e]"
proof (cases "reasoning e")
  case True
  have "filter from_user (filter (\<lambda>m. reasoning m \<or> from_user m) prev) = filter from_user prev"
    by (induction prev) auto
  with True show ?thesis by (simp add: setMessages_onmessage_def)
next
  case False
  show ?thesis
  proof (cases "0 < length prev \<and> \<not> reasoning (last prev) \<and> \<not> from_user (last prev)")
    case True
    then have "prev = butlast prev @ [last prev]" by simp
    then have "filter from_user prev = filter from_user (butlast prev) @ filter from_user [last prev]"
      by (metis filter_append)
    with True have "filter from_user (butlast prev) = filter from_user prev" by simp
    with True False show ?thesis by (simp add: setMessages_onmessage_def)
  next
    case other: False
    with False show ?thesis by (auto simp add: setMessages_onmessage_def)
  qed
qed

lemma filter_from_user_fold:
  "filter from_user (fold setMessages_onmessage evs prev) =
     filter from_user prev @ filter from_user evs"
proof (induction evs arbitrary: prev)
  case Nil
  show ?case by simp
next
  case (Cons e evs)
  have "filter from_user (fold setMessages_onmessage (e # evs) prev) =
        filter from_user (setMessages_onmessage e prev) @ filter from_user evs"
    using Cons.IH [of "setMessages_onmessage e prev"] by simp
  then show ?case by (simp add: filter_from_user_step)
qed

text \<open>
  C4. An accepted submission (a socket object is present and \<open>send\<close> does not throw, the
  input is not blank) appends exactly one entry to the transcript, the entry is a user
  entry, and whatever inbound events are processed afterwards, from whatever transcript
  the submission started, the user entries of the transcript are the earlier user
  entries, the new entry, and then the events that carry \<open>user = "You"\<close> themselves: the
  reasoning filter never removes the entry and a final event never overwrites it.
\<close>

theorem user_entry_kept:
  assumes "ws st = Some r" and "r \<noteq> CONNECTING" and "trim (input st) \<noteq> []"
  shows "\<exists>st'. sendMessage now st = Inr st' \<and>
           messages st' = messages st @ [(messageData now st)\<lparr>user := Some You\<rparr>] \<and>
           from_user ((messageData now st)\<lparr>user := Some You\<rparr>) \<and>
           filter from_user (fold setMessages_onmessage evs (messages st')) =
             filter from_user (messages st) @ [(messageData now st)\<lparr>user := Some You\<rparr>] @
             filter from_user evs"
proof -
  let ?u = "(messageData now st)\<lparr>user := Some You\<rparr>"
  let ?st' = "st\<lparr>sent := (if r = OPEN then sent st @ [messageData now st] else sent st),
                 messages := messages st @ [?u], input := [], loading := True\<rparr>"
  have sent: "sendMessage now st = Inr ?st'"
    using assms by (simp add: sendMessage_def)
  have u: "from_user ?u"
    by (simp add: from_user_def)
  have "filter from_user (fold setMessages_onmessage evs (messages ?st')) =
          filter from_user (messages st @ [?u]) @ filter from_user evs"
    by (simp add: filter_from_user_fold)
  with u have "filter from_user (fold setMessages_onmessage evs (messages ?st')) =
          filter from_user (messages st) @ [?u] @ filter from_user evs"
    by simp
  with sent u show ?thesis by simp
qed

theorem user_entry_kept_witness:
  "trim (js '' hi '') \<noteq> [] \<and>
   filter from_user
     (fold setMessages_onmessage
        [event (Some True) (js ''thinking''), event None (js ''a''), event None (js ''ab'')]
        (messages chat0 @ [(messageData 7 (chat0\<lparr>ws := Some OPEN, input := js '' hi ''\<rparr>))\<lparr>user := Some You\<rparr>]))
   = [(messageData 7 (chat0\<lparr>ws := Some OPEN, input := js '' hi ''\<rparr>))\<lparr>user := Some You\<rparr>]"
  using user_entry_kept [of "chat0\<lparr>ws := Some OPEN, input := js '' hi ''\<rparr>" OPEN 7
      "[event (Some True) (js ''thinking''), event None (js ''a''), event None (js ''ab'')]"]
  by (simp add: chat0_def trim_def trimmable_def is_white_space_def is_line_terminator_def js_def
      from_user_def event_def You_def setMessages_onmessage_def reasoning_def truthy_def
      messageData_def)

section \<open>Submission\<close>

text \<open>
  The ids of the requests of a run on an open socket are the clock readings of its
  submissions, in order.
\<close>

lemma type_and_send_ids:
  "ws st = Some OPEN \<Longrightarrow> list_all (\<lambda>(n, t). trim t \<noteq> []) subs \<Longrightarrow>
   \<exists>st'. type_and_send subs st = Inr st' \<and>
         map msg_id (sent st') = map msg_id (sent st) @ map (\<lambda>(n, t). Some n) subs"
proof (induction subs arbitrary: st)
  case Nil
  then show ?case by simp
next
  case (Cons sub subs)
  obtain n t where sub: "sub = (n, t)" by (cases sub)
  let ?typed = "Textarea_onChange t st"
  let ?st1 = "?typed\<lparr>sent := sent ?typed @ [messageData n ?typed],
                      messages := messages ?typed @ [(messageData n ?typed)\<lparr>user := Some You\<rparr>],
                      input := [], loading := True\<rparr>"
  from Cons.prems sub have t: "trim t \<noteq> []" and rest: "list_all (\<lambda>(n, t). trim t \<noteq> []) subs"
    by simp_all
  have first: "sendMessage n ?typed = Inr ?st1"
    using Cons.prems(1) t by (simp add: sendMessage_def Textarea_onChange_def)
  have "ws ?st1 = Some OPEN"
    using Cons.prems(1) by (simp add: Textarea_onChange_def)
  from Cons.IH [OF this rest] obtain st' where run: "type_and_send subs ?st1 = Inr st'"
    and ids: "map msg_id (sent st') = map msg_id (sent ?st1) @ map (\<lambda>(n, t). Some n) subs"
    by blast
  have "map msg_id (sent ?st1) = map msg_id (sent st) @ [Some n]"
    by (simp add: Textarea_onChange_def messageData_def)
  with ids have "map msg_id (sent st') = map msg_id (sent st) @ map (\<lambda>(n, t). Some n) (sub # subs)"
    by (simp add: sub)
  moreover have "type_and_send (sub # subs) st = Inr st'"
    using first run by (simp add: sub)
  ultimately show ?case by blast
qed

lemma distinct_Some_ids:
  "distinct (map (\<lambda>(n, t). Some n) subs) = distinct (map fst subs)"
proof -
  have shape: "map (\<lambda>(n, t). Some n) subs = map Some (map fst subs)"
    by (induction subs) auto
  have "distinct (map Some ns) = distinct ns" for ns :: "'a list"
    by (induction ns) auto
  then have "distinct (map Some (map fst subs)) = distinct (map fst subs)" .
  then show ?thesis by (simp only: shape)
qed

text \<open>
  C5 (amended). For every accepted submission on an open socket with input text \<open>t\<close>, one
  request is transmitted and it carries an id, the user identifier \<open>"user123"\<close>, the
  session identifier \<open>"session123"\<close>, the text \<open>t\<close> as typed (not trimmed: \<open>trim\<close> is used
  in the guard only) and the search toggle. The id is the reading of \<open>Date.now()\<close> at the
  submission: whatever submissions follow, the ids of the requests sent from this one on
  are the clock readings of their submissions, so they are pairwise distinct exactly
  when the clock readings are.
\<close>

theorem sendMessage_request:
  assumes "ws st = Some OPEN" and "trim (input st) \<noteq> []"
  shows "\<exists>st'. sendMessage now st = Inr st' \<and>
           sent st' = sent st @ [messageData now st] \<and>
           msg_id (messageData now st) = Some now \<and>
           user_id (messageData now st) = Some (js ''user123'') \<and>
           session_id (messageData now st) = Some (js ''session123'') \<and>
           user_message (messageData now st) = Some (input st) \<and>
           search (messageData now st) = Some (searchEnabled st) \<and>
           (\<forall>subs. list_all (\<lambda>(n, t). trim t \<noteq> []) subs \<longrightarrow>
              (\<exists>st''. type_and_send subs st' = Inr st'' \<and>
                 map msg_id (sent st'') =
                   map msg_id (sent st) @ Some now # map (\<lambda>(n, t). Some n) subs \<and>
                 distinct (map msg_id (drop (length (sent st)) (sent st''))) =
                   distinct (now # map fst subs)))"
proof -
  let ?st' = "st\<lparr>sent := sent st @ [messageData now st],
                 messages := messages st @ [(messageData now st)\<lparr>user := Some You\<rparr>],
                 input := [], loading := True\<rparr>"
  have this_one: "sendMessage now st = Inr ?st'"
    using assms by (simp add: sendMessage_def)
  have fields: "msg_id (messageData now st) = Some now"
    "user_id (messageData now st) = Some (js ''user123'')"
    "session_id (messageData now st) = Some (js ''session123'')"
    "user_message (messageData now st) = Some (input st)"
    "search (messageData now st) = Some (searchEnabled st)"
    by (simp_all add: messageData_def)
  have later: "\<exists>st''. type_and_send subs ?st' = Inr st'' \<and>
                 map msg_id (sent st'') =
                   map msg_id (sent st) @ Some now # map (\<lambda>(n, t). Some n) subs \<and>
                 distinct (map msg_id (drop (length (sent st)) (sent st''))) =
                   distinct (now # map fst subs)"
    if subs: "list_all (\<lambda>(n, t). trim t \<noteq> []) subs" for subs
  proof -
    have "ws ?st' = Some OPEN"
      using assms(1) by simp
    from type_and_send_ids [OF this subs] obtain st'' where
      run: "type_and_send subs ?st' = Inr st''" and
      ids: "map msg_id (sent st'') = map msg_id (sent ?st') @ map (\<lambda>(n, t). Some n) subs"
      by blast
    from ids have all: "map msg_id (sent st'') =
        map msg_id (sent st) @ Some now # map (\<lambda>(n, t). Some n) subs"
      by (simp add: fields(1))
    have "map msg_id (drop (length (sent st)) (sent st'')) =
            drop (length (map msg_id (sent st))) (map msg_id (sent st''))"
      by (simp add: drop_map)
    also have "\<dots> = Some now # map (\<lambda>(n, t). Some n) subs"
      unfolding all by simp
    finally have new: "map msg_id (drop (length (sent st)) (sent st'')) =
        map (\<lambda>(n, t). Some n) ((now, input st) # subs)"
      by simp
    have "distinct (map msg_id (drop (length (sent st)) (sent st''))) =
            distinct (now # map fst subs)"
      unfolding new distinct_Some_ids by simp
    with run all show ?thesis by blast
  qed
  show ?thesis
    using this_one fields later by simp
qed

theorem sendMessage_request_witness:
  "trim (js '' hi '') \<noteq> [] \<and> trim (js ''yo'') \<noteq> [] \<and>
   (\<exists>st'. sendMessage 7 (chat0\<lparr>ws := Some OPEN, input := js '' hi ''\<rparr>) = Inr st' \<and>
      map user_message (sent st') = [Some (js '' hi '')] \<and>
      (\<exists>st''. type_and_send [(8, js ''yo'')] st' = Inr st'' \<and>
         map msg_id (sent st'') = [Some 7, Some 8]))"
  using sendMessage_request [of "chat0\<lparr>ws := Some OPEN, input := js '' hi ''\<rparr>" 7]
  by (auto simp add: chat0_def trim_def trimmable_def is_white_space_def is_line_terminator_def
      js_def messageData_def sendMessage_def Textarea_onChange_def)

text \<open>
  The input \<open>" hi "\<close> is sent with its blanks, while its trimmed text is \<open>"hi"\<close>; and two
  submissions made while the clock reads 7 send two requests that both carry the id 7.
\<close>

theorem sendMessage_request_counterexample:
  "sendMessage 7 (chat0\<lparr>ws := Some OPEN, input := js '' hi ''\<rparr>) =
     Inr (chat0\<lparr>ws := Some OPEN,
               sent := [messageData 7 (chat0\<lparr>ws := Some OPEN, input := js '' hi ''\<rparr>)],
               messages := [(messageData 7 (chat0\<lparr>ws := Some OPEN, input := js '' hi ''\<rparr>))
                              \<lparr>user := Some You\<rparr>],
               loading := True\<rparr>) \<and>
   user_message (messageData 7 (chat0\<lparr>ws := Some OPEN, input := js '' hi ''\<rparr>)) = Some (js '' hi '') \<and>
   trim (js '' hi '') = js ''hi'' \<and>
   js '' hi '' \<noteq> js ''hi'' \<and>
   (case type_and_send [(7, js ''hi''), (7, js ''yo'')] (chat0\<lparr>ws := Some OPEN\<rparr>) of
      Inl e \<Rightarrow> None
    | Inr st \<Rightarrow> Some (map msg_id (sent st), map user_message (sent st))) =
     Some ([Some 7, Some 7], [Some (js ''hi''), Some (js ''yo'')])"
  by (simp add: sendMessage_def chat0_def trim_def trimmable_def is_white_space_def
      is_line_terminator_def js_def messageData_def Textarea_onChange_def)

text \<open>
  C7 (amended). A submission made while no socket object is stored (\<open>ws\<close> is null), or
  whose text is empty or consists of white space only, changes nothing: no entry is
  appended, no request is sent and the loading flag is not set. While the stored socket
  is still connecting and the text is not blank, \<open>send\<close> throws and nothing is changed
  either.
\<close>

theorem sendMessage_guard:
  assumes "ws st = None \<or> ws st = Some CONNECTING \<or> trim (input st) = []"
  shows "sendMessage now st =
           (if ws st = Some CONNECTING \<and> trim (input st) \<noteq> [] then Inl InvalidStateError
            else Inr st)"
  using assms by (auto simp add: sendMessage_def split: option.splits)

theorem sendMessage_guard_witness:
  "trim (js ''  '') = [] \<and>
   sendMessage 7 (chat0\<lparr>ws := Some OPEN, input := js ''  ''\<rparr>) =
     Inr (chat0\<lparr>ws := Some OPEN, input := js ''  ''\<rparr>) \<and>
   sendMessage 7 (chat0\<lparr>input := js ''hi''\<rparr>) = Inr (chat0\<lparr>input := js ''hi''\<rparr>)"
  using sendMessage_guard [of "chat0\<lparr>ws := Some OPEN, input := js ''  ''\<rparr>" 7]
    sendMessage_guard [of "chat0\<lparr>input := js ''hi''\<rparr>" 7]
  by (simp add: chat0_def trim_def trimmable_def is_white_space_def is_line_terminator_def js_def)

text \<open>
  With a socket that is closed, so not open, and the text \<open>"hi"\<close>, the submission appends
  the user entry and sets the loading flag.
\<close>

theorem sendMessage_guard_counterexample:
  "sendMessage 7 (chat0\<lparr>ws := Some CLOSED, input := js ''hi''\<rparr>) =
     Inr (chat0\<lparr>ws := Some CLOSED,
               messages := [(messageData 7 (chat0\<lparr>ws := Some CLOSED, input := js ''hi''\<rparr>))
                              \<lparr>user := Some You\<rparr>],
               loading := True\<rparr>) \<and>
   sendMessage 7 (chat0\<lparr>ws := Some CLOSED, input := js ''hi''\<rparr>) \<noteq>
     Inr (chat0\<lparr>ws := Some CLOSED, input := js ''hi''\<rparr>)"
  by (simp add: sendMessage_def chat0_def trim_def trimmable_def is_white_space_def
      is_line_terminator_def js_def messageData_def)

section \<open>Closing the connection\<close>

text \<open>
  C6 (amended). The handler of the close event leaves the loading flag and the transcript
  as they were: for every state, after it has run, the flag and the transcript equal
  their values before.
\<close>

theorem websocket_onclose_frame:
  "loading (websocket_onclose st) = loading st \<and>
   messages (websocket_onclose st) = messages st"
  by (simp add: websocket_onclose_def)

text \<open>
  After a submission the loading flag is set, and it is still set after the close handler
  has run.
\<close>

theorem websocket_onclose_counterexample:
  "sendMessage 7 (chat0\<lparr>ws := Some OPEN, input := js ''hi''\<rparr>) =
     Inr (chat0\<lparr>ws := Some OPEN,
               sent := [messageData 7 (chat0\<lparr>ws := Some OPEN, input := js ''hi''\<rparr>)],
               messages := [(messageData 7 (chat0\<lparr>ws := Some OPEN, input := js ''hi''\<rparr>))
                              \<lparr>user := Some You\<rparr>],
               loading := True\<rparr>) \<and>
   loading (websocket_onclose
     (chat0\<lparr>ws := Some OPEN,
            sent := [messageData 7 (chat0\<lparr>ws := Some OPEN, input := js ''hi''\<rparr>)],
            messages := [(messageData 7 (chat0\<lparr>ws := Some OPEN, input := js ''hi''\<rparr>))
                           \<lparr>user := Some You\<rparr>],
            loading := True\<rparr>)) = True"
  by (simp add: sendMessage_def websocket_onclose_def chat0_def trim_def trimmable_def
      is_white_space_def is_line_terminator_def js_def messageData_def)

section \<open>The loading flag\<close>

text \<open>
  C10. No inbound event changes the loading flag: for every parsed event the message
  handler returns a state with the flag it started from (and on a frame that does not
  parse it ends with SyntaxError, before any state is written). The effect that stores
  the socket, the open and close handlers, the text area and the switch leave the flag
  unchanged as well. \<open>sendMessage\<close> is the only writer: when its guard passes and it
  returns, the flag is true, and otherwise it is unchanged.
\<close>

theorem loading_written_by_sendMessage_only:
  "(\<exists>st'. websocket_onmessage (Some data) st = Inr st' \<and> loading st' = loading st) \<and>
   websocket_onmessage None st = Inl SyntaxError \<and>
   loading (useEffect_mount st) = loading st \<and>
   loading (websocket_onopen st) = loading st \<and>
   loading (websocket_onclose st) = loading st \<and>
   loading (Textarea_onChange v st) = loading st \<and>
   loading (Switch_onValueChange b st) = loading st \<and>
   (\<forall>st'. sendMessage now st = Inr st' \<longrightarrow>
      loading st' = (if ws st \<noteq> None \<and> trim (input st) \<noteq> [] then True else loading st))"
proof -
  have event: "\<exists>st'. websocket_onmessage (Some data) st = Inr st' \<and> loading st' = loading st"
    by (simp add: websocket_onmessage_def)
  have malformed: "websocket_onmessage None st = Inl SyntaxError"
    by (simp add: websocket_onmessage_def)
  have others: "loading (useEffect_mount st) = loading st"
    "loading (websocket_onopen st) = loading st"
    "loading (websocket_onclose st) = loading st"
    "loading (Textarea_onChange v st) = loading st"
    "loading (Switch_onValueChange b st) = loading st"
    by (simp_all add: useEffect_mount_def websocket_onopen_def websocket_onclose_def
        Textarea_onChange_def Switch_onValueChange_def)
  have submit: "\<forall>st'. sendMessage now st = Inr st' \<longrightarrow>
      loading st' = (if ws st \<noteq> None \<and> trim (input st) \<noteq> [] then True else loading st)"
    by (auto simp add: sendMessage_def split: option.splits if_splits)
  show ?thesis
    using event malformed others submit by blast
qed

theorem loading_written_by_sendMessage_only_witness:
  "sendMessage 7 (chat0\<lparr>ws := Some OPEN, input := js ''hi''\<rparr>) =
     Inr (chat0\<lparr>ws := Some OPEN,
               sent := [messageData 7 (chat0\<lparr>ws := Some OPEN, input := js ''hi''\<rparr>)],
               messages := [(messageData 7 (chat0\<lparr>ws := Some OPEN, input := js ''hi''\<rparr>))
                              \<lparr>user := Some You\<rparr>],
               loading := True\<rparr>) \<and>
   (\<exists>st'. websocket_onmessage (Some (event (Some True) (js ''thinking'')))
            (chat0\<lparr>loading := True\<rparr>) = Inr st' \<and> loading st' = True)"
  using loading_written_by_sendMessage_only
    [of "event (Some True) (js ''thinking'')" "chat0\<lparr>loading := True\<rparr>" "[]" True 7]
    loading_written_by_sendMessage_only
    [of "event (Some True) (js ''thinking'')" "chat0\<lparr>ws := Some OPEN, input := js ''hi''\<rparr>"
        "[]" True 7]
  by (simp add: sendMessage_def chat0_def trim_def trimmable_def is_white_space_def
      is_line_terminator_def js_def messageData_def)

section \<open>Emphasis in the renderer\<close>

text \<open>
  What the pattern matches: a match is the two delimiters around the lazy body, it is at
  least four code units long, and the chunks of a line, put together, are the line.
\<close>

lemma length_stars: "length stars = 2"
  by (simp add: stars_def js_def)

lemma lazy_body_parts:
  "lazy_body s = Some (b, r) \<Longrightarrow> s = b @ stars @ r"
proof (induction s arbitrary: b)
  case Nil
  then show ?case by simp
next
  case (Cons c cs)
  show ?case
  proof (cases "prefix stars (c # cs)")
    case True
    with Cons.prems have br: "b = []" "r = drop 2 (c # cs)"
      by auto
    from True obtain zs where "c # cs = stars @ zs"
      by (auto simp: prefix_def)
    with br show ?thesis by (simp add: length_stars)
  next
    case False
    with Cons.prems obtain b' where "lazy_body cs = Some (b', r)" and "b = c # b'"
      by (auto split: if_splits)
    with Cons.IH [of b'] show ?thesis by simp
  qed
qed

lemma match_at_parts:
  assumes "match_at s = Some (m, r)"
  shows "s = m @ r" and "prefix stars m" and "suffix stars m" and "4 \<le> length m"
proof -
  from assms have p: "prefix stars s"
    by (simp add: match_at_def split: if_splits)
  from assms p obtain b where b: "lazy_body (drop 2 s) = Some (b, r)" and m: "m = stars @ b @ stars"
    by (auto simp: match_at_def)
  from p have "s = stars @ drop 2 s"
    by (auto simp: prefix_def length_stars)
  with lazy_body_parts [OF b] have "s = stars @ b @ stars @ r" by simp
  with m show "s = m @ r" by simp
  from m show "prefix stars m" by simp
  from m show "suffix stars m" by (simp add: suffix_def)
  from m show "4 \<le> length m" by (simp add: length_stars)
qed

lemma concat_split_bold: "concat (split_bold cur s) = cur @ s"
proof (induction cur s rule: split_bold.induct)
  case (1 cur s)
  show ?case
  proof (cases "match_at s")
    case None
    show ?thesis
    proof (cases s)
      case Nil
      with None show ?thesis by (simp add: split_bold.simps [of cur "[]"])
    next
      case (Cons c cs)
      with None "1.IH"(1) [of c cs] show ?thesis by (simp add: split_bold.simps [of cur "c # cs"])
    qed
  next
    case (Some mr)
    obtain m r where mr: "mr = (m, r)" by (cases mr)
    with Some have matched: "match_at s = Some (m, r)" by simp
    then have s: "s = m @ r" by (rule match_at_parts(1))
    have rest: "concat (split_bold [] r) = r"
      using "1.IH"(2) [OF Some mr [symmetric]] by simp
    have "split_bold cur s = cur # m # split_bold [] r"
      using matched by (subst split_bold.simps) simp
    then have "concat (split_bold cur s) = cur @ m @ r"
      using rest by simp
    then show ?thesis using s by simp
  qed
qed

lemma emphasized_long:
  assumes "prefix stars chunk" and "suffix stars chunk" and "4 \<le> length chunk"
  shows "chunk = stars @ slice_2_minus_2 chunk @ stars"
proof -
  from assms(2) obtain q where q: "chunk = q @ stars"
    by (auto simp: suffix_def)
  with assms(3) have lq: "2 \<le> length q"
    by (simp add: length_stars)
  from assms(1) obtain zs where zs: "chunk = stars @ zs"
    by (auto simp: prefix_def)
  from q zs lq have "take 2 q = stars"
    by (metis append_eq_append_conv_if append_eq_conv_conj length_stars)
  then have "q = stars @ drop 2 q"
    by (metis append_take_drop_id)
  moreover have "slice_2_minus_2 chunk = drop 2 q"
    using q by (simp add: slice_2_minus_2_def length_stars)
  ultimately show ?thesis using q by simp
qed

lemma emphasized_short:
  assumes "prefix stars chunk" and "suffix stars chunk" and "length chunk < 4"
  shows "slice_2_minus_2 chunk = [] \<and> (chunk = js ''**'' \<or> chunk = js ''***'')"
proof -
  from assms(1) obtain zs where zs: "chunk = stars @ zs"
    by (auto simp: prefix_def)
  with assms(3) have "length zs < 2" by (simp add: length_stars)
  then consider "zs = []" | x where "zs = [x]"
    by (cases zs) (auto simp: length_Suc_conv)
  then show ?thesis
  proof cases
    case 1
    with zs show ?thesis by (simp add: slice_2_minus_2_def stars_def js_def)
  next
    case 2
    with zs assms(2) have "x = 42"
      by (auto simp: stars_def js_def suffix_def Cons_eq_append_conv)
    with 2 zs show ?thesis by (simp add: slice_2_minus_2_def stars_def js_def)
  qed
qed

text \<open>
  C3 (amended). For every input string, each row of \<open>formatMessage\<close> is the chunks of the
  line's delimiter split, each formatted on its own, and a chunk is emphasized if and
  only if it begins with \<open>**\<close> and ends with \<open>**\<close>; the code has no condition on the
  length. The emphasized text is \<open>chunk.slice(2, -2)\<close>: for a chunk of length at least 4
  it is the chunk with both delimiters stripped; the only shorter chunks that begin and
  end with the delimiter are \<open>**\<close> and \<open>***\<close>, where the two delimiters overlap, and they
  are emphasized with the empty text.
\<close>

theorem format_chunk_emphasis:
  "formatMessage text =
     map (\<lambda>line. map format_chunk (split_bold [] line) @ [Br]) (split_lines [] text) \<and>
   ((\<exists>t. format_chunk chunk = Strong t) \<longleftrightarrow> prefix stars chunk \<and> suffix stars chunk) \<and>
   (prefix stars chunk \<and> suffix stars chunk \<longrightarrow>
      format_chunk chunk = Strong (slice_2_minus_2 chunk) \<and>
      (if 4 \<le> length chunk then chunk = stars @ slice_2_minus_2 chunk @ stars
       else slice_2_minus_2 chunk = [] \<and> (chunk = js ''**'' \<or> chunk = js ''***'')))"
proof -
  have rows: "formatMessage text =
     map (\<lambda>line. map format_chunk (split_bold [] line) @ [Br]) (split_lines [] text)"
    by (simp add: formatMessage_def)
  have iff: "(\<exists>t. format_chunk chunk = Strong t) \<longleftrightarrow> prefix stars chunk \<and> suffix stars chunk"
    by (simp add: format_chunk_def)
  have strong: "format_chunk chunk = Strong (slice_2_minus_2 chunk)"
    if "prefix stars chunk \<and> suffix stars chunk"
    using that by (simp add: format_chunk_def)
  have long: "chunk = stars @ slice_2_minus_2 chunk @ stars"
    if "prefix stars chunk \<and> suffix stars chunk" and "4 \<le> length chunk"
    using that emphasized_long by blast
  have short: "slice_2_minus_2 chunk = [] \<and> (chunk = js ''**'' \<or> chunk = js ''***'')"
    if "prefix stars chunk \<and> suffix stars chunk" and "\<not> 4 \<le> length chunk"
    using that emphasized_short [of chunk] by simp
  show ?thesis
    using rows iff strong long short by presburger
qed

theorem format_chunk_emphasis_witness:
  "prefix stars (js ''**bold**'') \<and> suffix stars (js ''**bold**'') \<and>
   format_chunk (js ''**bold**'') = Strong (js ''bold'') \<and>
   formatMessage (js ''**bold** and plain'') =
     [[Plain [], Strong (js ''bold''), Plain (js '' and plain''), Br]]"
  using format_chunk_emphasis [of "js ''**bold** and plain''" "js ''**bold**''"]
  by (simp add: formatMessage_def format_chunk_def slice_2_minus_2_def split_bold.simps
      match_at_def stars_def js_def is_line_terminator_def suffix_def Cons_eq_append_conv)

text \<open>
  The line \<open>**\<close> is not matched by the pattern, so it is one chunk, of length 2; the
  chunk begins and ends with the delimiter, and the row is one emphasized element with
  empty text, not the plain text \<open>**\<close>.
\<close>

theorem format_chunk_counterexample:
  "split_bold [] (js ''**'') = [js ''**''] \<and>
   length (js ''**'') < 4 \<and>
   formatMessage (js ''**'') = [[Strong [], Br]] \<and>
   formatMessage (js ''**'') \<noteq> [[Plain (js ''**''), Br]]"
  by (simp add: formatMessage_def format_chunk_def slice_2_minus_2_def split_bold.simps
      match_at_def stars_def js_def is_line_terminator_def suffix_def)

section \<open>Shaping of search results\<close>

lemma filter_Boolean_filter:
  "map Some (filter_Boolean xs) = filter (\<lambda>i. i \<noteq> None) xs"
  by (induction xs rule: filter_Boolean.induct) simp_all

lemma nonempty_category_iff:
  "nonempty_category results category \<longleftrightarrow>
     (\<exists>items. map_of results category = Some (Some items) \<and> items \<noteq> [])"
  by (auto simp: nonempty_category_def category_items_def split: option.splits)

text \<open>
  C8 (amended). For every result set, a category appears in the view if and only if its
  value is an array that is not empty, counted before null entries are removed; each
  category shown lists one card per non-null entry of its array, in order, and none for
  a null entry. A category whose array holds only null entries is shown, with no card.
\<close>

theorem SearchResults_categories:
  "(category \<in> set (map heading (SearchResults results)) \<longleftrightarrow>
      (\<exists>items. map_of results category = Some (Some items) \<and> items \<noteq> [])) \<and>
   (\<forall>v\<in>set (SearchResults results).
      \<exists>items. map_of results (heading v) = Some (Some items) \<and> items \<noteq> [] \<and>
        cards v = map (render_item (heading v)) (filter_Boolean items) \<and>
        map Some (filter_Boolean items) = filter (\<lambda>i. i \<noteq> None) items)"
proof -
  have keys: "map heading (SearchResults results) =
                filter (nonempty_category results) (map fst results)"
    by (simp add: SearchResults_def comp_def)
  have "category \<in> set (map heading (SearchResults results)) \<longleftrightarrow>
          category \<in> fst ` set results \<and> nonempty_category results category"
    unfolding keys by auto
  moreover have "nonempty_category results category \<Longrightarrow> category \<in> fst ` set results"
    by (auto simp: nonempty_category_iff dest: map_of_SomeD intro: rev_image_eqI)
  ultimately have shown: "category \<in> set (map heading (SearchResults results)) \<longleftrightarrow>
      (\<exists>items. map_of results category = Some (Some items) \<and> items \<noteq> [])"
    using nonempty_category_iff by blast
  have each: "\<exists>items. map_of results (heading v) = Some (Some items) \<and> items \<noteq> [] \<and>
        cards v = map (render_item (heading v)) (filter_Boolean items) \<and>
        map Some (filter_Boolean items) = filter (\<lambda>i. i \<noteq> None) items"
    if "v \<in> set (SearchResults results)" for v
  proof -
    from that obtain k where k: "nonempty_category results k"
      and v: "v = \<lparr>heading = k, cards = map (render_item k)
                (filter_Boolean (case category_items results k of None \<Rightarrow> [] | Some items \<Rightarrow> items))\<rparr>"
      by (auto simp: SearchResults_def)
    from k obtain items where items: "map_of results k = Some (Some items)" "items \<noteq> []"
      by (auto simp: nonempty_category_iff)
    then have "category_items results k = Some items"
      by (simp add: category_items_def)
    with v items show ?thesis
      by (simp add: filter_Boolean_filter)
  qed
  show ?thesis
    using shown each by blast
qed

theorem SearchResults_categories_witness:
  "SearchResults
     [(js ''videos'', Some []),
      (js ''news'', Some [None, Some \<lparr>image_field = None, thumbnails = None,
          title = Some (js ''X''), date = None, publish_time = None, body = None,
          href = None, url = Some (js ''http://x''), link = None\<rparr>])]
   = [\<lparr>heading = js ''news'',
       cards = [\<lparr>card_images = [], card_title = Some (js ''X''), card_date = None,
                 card_body = None, card_href = Some (js ''http://x''),
                 card_action = js ''Read more''\<rparr>]\<rparr>]"
  using SearchResults_categories [of "js ''news''"
     "[(js ''videos'', Some []),
      (js ''news'', Some [None, Some \<lparr>image_field = None, thumbnails = None,
          title = Some (js ''X''), date = None, publish_time = None, body = None,
          href = None, url = Some (js ''http://x''), link = None\<rparr>])]"]
  by (simp add: SearchResults_def nonempty_category_def category_items_def render_item_def
      or_else_def present_def js_def)

text \<open>
  The category \<open>news\<close> with the array \<open>[null]\<close> is empty once nulls are removed, and it
  is displayed, with a heading and no card.
\<close>

theorem SearchResults_categories_counterexample:
  "filter_Boolean [None :: result_item option] = [] \<and>
   SearchResults [(js ''news'', Some [None])] = [\<lparr>heading = js ''news'', cards = []\<rparr>]"
  by (simp add: SearchResults_def nonempty_category_def category_items_def)

text \<open>
  C9 (amended). For every item, the \<open>image\<close> field is displayed when it is present (a
  non-empty string) and, independently, the first element of \<open>thumbnails\<close> is displayed
  when that array is not empty: an item that has both displays both, the \<open>image\<close>
  first; an item that does not have both displays the image the specification resolves
  (\<open>image\<close> if present, else the first thumbnail, else none).
\<close>

theorem render_item_images:
  "(present (image_field item) \<and> thumbnails item = Some (t # ts) \<longrightarrow>
      card_images (render_item category item) = [the (image_field item), t]) \<and>
   (\<not> (present (image_field item) \<and> (\<exists>t ts. thumbnails item = Some (t # ts))) \<longrightarrow>
      card_images (render_item category item) =
        (case spec_display_image item of None \<Rightarrow> [] | Some i \<Rightarrow> [i]))"
  by (auto simp: render_item_def spec_display_image_def present_def
      split: option.splits list.splits)

theorem render_item_images_witness:
  "card_images (render_item (js ''news'')
      \<lparr>image_field = Some (js ''a.png''), thumbnails = Some [js ''t.png'', js ''u.png''],
       title = None, date = None, publish_time = None, body = None, href = None,
       url = None, link = None\<rparr>) = [js ''a.png'', js ''t.png''] \<and>
   card_images (render_item (js ''news'')
      \<lparr>image_field = None, thumbnails = Some [js ''t.png'', js ''u.png''],
       title = None, date = None, publish_time = None, body = None, href = None,
       url = None, link = None\<rparr>) = [js ''t.png'']"
  using render_item_images [of
      "\<lparr>image_field = Some (js ''a.png''), thumbnails = Some [js ''t.png'', js ''u.png''],
       title = None, date = None, publish_time = None, body = None, href = None,
       url = None, link = None\<rparr>" "js ''t.png''" "[js ''u.png'']" "js ''news''"]
    render_item_images [of
      "\<lparr>image_field = None, thumbnails = Some [js ''t.png'', js ''u.png''],
       title = None, date = None, publish_time = None, body = None, href = None,
       url = None, link = None\<rparr>" "js ''t.png''" "[js ''u.png'']" "js ''news''"]
  by (simp add: present_def spec_display_image_def js_def)

text \<open>
  An item with \<open>image\<close> and one thumbnail: the specification resolves the \<open>image\<close> only,
  the card holds two \<open>img\<close> elements.
\<close>

theorem render_item_images_counterexample:
  "spec_display_image
      \<lparr>image_field = Some (js ''a.png''), thumbnails = Some [js ''t.png''],
       title = None, date = None, publish_time = None, body = None, href = None,
       url = None, link = None\<rparr> = Some (js ''a.png'') \<and>
   card_images (render_item (js ''news'')
      \<lparr>image_field = Some (js ''a.png''), thumbnails = Some [js ''t.png''],
       title = None, date = None, publish_time = None, body = None, href = None,
       url = None, link = None\<rparr>) = [js ''a.png'', js ''t.png'']"
  by (simp add: render_item_def spec_display_image_def present_def js_def)

end
